theory Spec2Isabelle
  imports Complex_Main "HOL-Library.Log_Nat"
begin

section \<open>Instants and durations\<close>

text \<open>
  Go's \<^verbatim>\<open>time.Time\<close> is read as an instant: a whole number of nanoseconds counted from
  the zero \<^verbatim>\<open>Time\<close> (1 January of year 1, UTC), so that \<^verbatim>\<open>IsZero\<close> is equality with 0.
  A \<^verbatim>\<open>time.Duration\<close> is an \<^verbatim>\<open>int64\<close> count of nanoseconds. \<^verbatim>\<open>Time.Sub\<close> saturates
  at the two ends of that range; \<^verbatim>\<open>Time.Add\<close> cannot leave the range of \<^verbatim>\<open>Time\<close>
  (about 292 billion years) for any instant a clock or a certificate can hold, and
  is plain addition here.
\<close>

type_synonym time = int
type_synonym duration = int

definition Second :: duration where
  "Second = 1000000000"

definition Minute :: duration where
  "Minute = 60 * Second"

definition maxDuration :: duration where
  "maxDuration = 2 ^ 63 - 1"

definition minDuration :: duration where
  "minDuration = - (2 ^ 63)"

definition time_Sub :: "time \<Rightarrow> time \<Rightarrow> duration" where
  "time_Sub t u =
     (let d = t - u in
      if maxDuration < d then maxDuration
      else if d < minDuration then minDuration
      else d)"

definition time_Add :: "time \<Rightarrow> duration \<Rightarrow> time" where
  "time_Add t d = t + d"

definition time_After :: "time \<Rightarrow> time \<Rightarrow> bool" where
  "time_After t u = (u < t)"

definition time_Before :: "time \<Rightarrow> time \<Rightarrow> bool" where
  "time_Before t u = (t < u)"

definition time_IsZero :: "time \<Rightarrow> bool" where
  "time_IsZero t = (t = 0)"

section \<open>The float64 arithmetic of the renewal policy\<close>

text \<open>
  \<^verbatim>\<open>time.Duration(float64(certLifetime) * 0.6)\<close> converts an \<^verbatim>\<open>int64\<close> to IEEE-754
  binary64, multiplies by the binary64 nearest to the decimal constant and truncates the
  product towards zero. Both the conversion and the product round to 53 significant
  bits, ties to even. The constants are \<open>m / 2 ^ 53\<close> for an integer \<open>m\<close>, so
  every value that occurs is an integer multiple of \<open>2 ^ -53\<close> far inside the
  exponent range, and the arithmetic is carried out exactly on integers: \<open>round53\<close>
  rounds a non-negative integer, and a product is held in units of \<open>2 ^ -53\<close>.
\<close>

definition round53 :: "int \<Rightarrow> int" where
  "round53 n =
     (let s = bitlen n - 53 in
      if s \<le> 0 then n
      else
        (let q = n div 2 ^ nat s;
             r = n mod 2 ^ nat s;
             h = 2 ^ nat (s - 1)
         in (if r < h \<or> (r = h \<and> even q) then q else q + 1) * 2 ^ nat s))"

text \<open>The binary64 nearest to 0.6 is \<open>f64_0_6 / 2 ^ 53\<close>, the one nearest to 0.9 is
  \<open>f64_0_9 / 2 ^ 53\<close>.\<close>

definition f64_0_6 :: int where
  "f64_0_6 = 5404319552844595"

definition f64_0_9 :: int where
  "f64_0_9 = 8106479329266893"

definition float64_of_int :: "int \<Rightarrow> int" where
  "float64_of_int d = sgn d * round53 \<bar>d\<bar>"

text \<open>\<open>scaleDuration m d\<close> is \<^verbatim>\<open>time.Duration(float64(d) * c)\<close> for the constant
  \<open>c = m / 2 ^ 53\<close>.\<close>

definition scaleDuration :: "int \<Rightarrow> duration \<Rightarrow> duration" where
  "scaleDuration m d =
     (let f = float64_of_int d;
          p = sgn f * round53 (\<bar>f\<bar> * m)
      in sgn p * (\<bar>p\<bar> div 2 ^ 53))"

section \<open>Certificates and the renewal-time policy\<close>

record IssuedCert =
  CertPEM :: string
  PrivateKeyPEM :: string
  ValidAfter :: time
  ValidBefore :: time
  ModifyIndex :: nat

text \<open>\<open>calculateSoftExpiry\<close> with the branch that produced the pair made visible.\<close>

datatype expiry_branch = TooShort | HardRenew | SoftWindow

definition calculateSoftExpiry_branch ::
  "time \<Rightarrow> 'a IssuedCert_scheme \<Rightarrow> expiry_branch \<times> time \<times> time" where
  "calculateSoftExpiry_branch now cert =
     (let certLifetime = time_Sub (ValidBefore cert) (ValidAfter cert) in
      if certLifetime < 10 * Minute then (TooShort, now, now)
      else
        (let softRenewTime = time_Add (ValidAfter cert) (scaleDuration f64_0_6 certLifetime);
             hardRenewTime = time_Add (ValidAfter cert) (scaleDuration f64_0_9 certLifetime)
         in if time_After now hardRenewTime then (HardRenew, now, now)
            else if time_After now softRenewTime then (SoftWindow, now, hardRenewTime)
            else (SoftWindow, softRenewTime, hardRenewTime)))"

definition calculateSoftExpiry :: "time \<Rightarrow> 'a IssuedCert_scheme \<Rightarrow> time \<times> time" where
  "calculateSoftExpiry now cert = snd (calculateSoftExpiry_branch now cert)"

section \<open>Roots, requests and results\<close>

text \<open>
  The structs declared in other packages of the repository (\<^verbatim>\<open>structs.IssuedCert\<close> above,
  \<^verbatim>\<open>structs.CARoot\<close>, \<^verbatim>\<open>structs.IndexedCARoots\<close>, \<^verbatim>\<open>cache.FetchOptions\<close>,
  \<^verbatim>\<open>cache.FetchResult\<close>, \<^verbatim>\<open>cache.UpdateEvent\<close>) are records of the fields this code
  reads or writes. An error is one of the errors the code makes itself, or one handed
  up from a collaborator.
\<close>

record fetchState =
  authorityKeyID :: string
  forceExpireAfter :: time

record CARoot =
  SigningKeyID :: string
  Active :: bool

record IndexedCARoots =
  ActiveRootID :: string
  TrustDomain :: string
  Roots :: "CARoot list"

record ConnectCALeafRequest =
  Token :: string
  Datacenter :: string
  Service :: string
  MinQueryIndex :: nat

datatype error =
    RequestWrongType
  | LastValueWrongType
  | LastStateWrongType
  | InvalidRootCAResponseType
  | NoCABootstrapped
  | NilDereference
  | Upstream string

text \<open>The \<^verbatim>\<open>interface{}\<close> fields of the cache framework: a nil interface, a pointer of
  the expected type (itself possibly nil), or a value of another type.\<close>

datatype cache_request = LeafRequest ConnectCALeafRequest | OtherRequest

datatype cache_value = NilValue | CertValue "IssuedCert option" | OtherValue

datatype cache_state = NilState | LeafState "fetchState option" | OtherState

record FetchResult =
  Value :: cache_value
  State :: cache_state
  Index :: nat

record FetchOptions =
  Timeout :: duration
  LastResult :: "FetchResult option"

datatype cache_get = GetError error | GetRoots IndexedCARoots | GetOther

definition caChangeInitialJitter :: duration where
  "caChangeInitialJitter = 20 * Second"

section \<open>The subscriber set and the roots watcher\<close>

text \<open>
  A channel and a cancellable context are known by their identity. Beside the fields of
  the Go struct the entry records which contexts it has created and for which of them the
  \<^verbatim>\<open>rootWatcher\<close> task started by \<^verbatim>\<open>go c.rootWatcher(ctx)\<close> has not yet returned. The
  mutex makes \<open>fetchStart\<close> and \<open>fetchDone\<close> atomic, so concurrent \<open>Fetch\<close> calls
  are a sequence of these operations. A nil map behaves as the empty one in every
  operation used.
\<close>

type_synonym chan = nat
type_synonym ctx = nat

record ConnectCALeaf =
  rootWatchSubscribers :: "chan set"
  rootWatchCancel :: "ctx option"
  testSetCAChangeInitialJitter :: duration
  nextCtx :: ctx
  running :: "ctx set"

text \<open>Calling the cancel function of a context makes the task that waits on
  \<^verbatim>\<open>ctx.Done()\<close> return; on a context already cancelled, or whose task has returned,
  it does nothing.\<close>

definition cancel :: "ctx \<Rightarrow> ConnectCALeaf \<Rightarrow> ConnectCALeaf" where
  "cancel x c = c\<lparr>running := running c - {x}\<rparr>"

definition ensureRootWatcher :: "ConnectCALeaf \<Rightarrow> ConnectCALeaf" where
  "ensureRootWatcher c =
     (if rootWatchCancel c = None
      then c\<lparr>rootWatchCancel := Some (nextCtx c),
             running := insert (nextCtx c) (running c),
             nextCtx := Suc (nextCtx c)\<rparr>
      else c)"

definition fetchStart :: "chan \<Rightarrow> ConnectCALeaf \<Rightarrow> ConnectCALeaf" where
  "fetchStart rootUpdateCh c =
     (let c1 = ensureRootWatcher c
      in c1\<lparr>rootWatchSubscribers := insert rootUpdateCh (rootWatchSubscribers c1)\<rparr>)"

definition fetchDone :: "chan \<Rightarrow> ConnectCALeaf \<Rightarrow> ConnectCALeaf" where
  "fetchDone rootUpdateCh c =
     (let c1 = c\<lparr>rootWatchSubscribers := rootWatchSubscribers c - {rootUpdateCh}\<rparr>
      in case rootWatchCancel c1 of
           None \<Rightarrow> c1
         | Some x \<Rightarrow> if rootWatchSubscribers c1 = {} then cancel x c1 else c1)"

text \<open>The watcher task returns at once when \<^verbatim>\<open>Cache.Notify\<close> fails.\<close>

definition notifyFailed :: "ctx \<Rightarrow> ConnectCALeaf \<Rightarrow> ConnectCALeaf" where
  "notifyFailed x c = c\<lparr>running := running c - {x}\<rparr>"

datatype entry_op = FetchEnters chan | FetchExits chan | WatcherSubscribeFails ctx

fun entry_step :: "ConnectCALeaf \<Rightarrow> entry_op \<Rightarrow> ConnectCALeaf" where
  "entry_step c (FetchEnters ch) = fetchStart ch c"
| "entry_step c (FetchExits ch) = fetchDone ch c"
| "entry_step c (WatcherSubscribeFails x) = notifyFailed x c"

definition entry_run :: "ConnectCALeaf \<Rightarrow> entry_op list \<Rightarrow> ConnectCALeaf" where
  "entry_run c ops = foldl entry_step c ops"

definition newEntry :: ConnectCALeaf where
  "newEntry = \<lparr>rootWatchSubscribers = {}, rootWatchCancel = None,
     testSetCAChangeInitialJitter = 0, nextCtx = 0, running = {}\<rparr>"

text \<open>One event on the watcher's update channel. The subscriber channels are
  one-buffered; \<open>buf ch\<close> is the number of values waiting in \<open>ch\<close>. A send on a full
  channel would block, and the \<^verbatim>\<open>select\<close> with a \<^verbatim>\<open>default\<close> case then takes the default.\<close>

datatype update_result = RootsResult IndexedCARoots | OtherResult

record UpdateEvent =
  Result :: update_result
  Err :: "error option"

definition trySend :: "nat \<Rightarrow> nat option" where
  "trySend n = (if n < 1 then Some (Suc n) else None)"

definition sendOrDrop :: "nat \<Rightarrow> nat" where
  "sendOrDrop n = (case trySend n of Some n' \<Rightarrow> n' | None \<Rightarrow> n)"

definition fanOut :: "chan set \<Rightarrow> (chan \<Rightarrow> nat) \<Rightarrow> chan \<Rightarrow> nat" where
  "fanOut subscribers buf = (\<lambda>ch. if ch \<in> subscribers then sendOrDrop (buf ch) else buf ch)"

definition rootWatcher_event ::
  "chan set \<Rightarrow> IndexedCARoots option \<times> (chan \<Rightarrow> nat) \<Rightarrow> UpdateEvent
     \<Rightarrow> IndexedCARoots option \<times> (chan \<Rightarrow> nat)" where
  "rootWatcher_event subscribers w e =
     (case w of (oldRoots, buf) \<Rightarrow>
        if Err e \<noteq> None then (oldRoots, buf)
        else
          (case Result e of
             OtherResult \<Rightarrow> (oldRoots, buf)
           | RootsResult roots \<Rightarrow>
               (case oldRoots of
                  None \<Rightarrow> (Some roots, fanOut subscribers buf)
                | Some old \<Rightarrow>
                    if ActiveRootID old = ActiveRootID roots then (oldRoots, buf)
                    else (Some roots, fanOut subscribers buf))))"

section \<open>Generating a leaf\<close>

text \<open>
  The collaborators of \<open>generateNewLeaf\<close> (the roots cache, key generation, CSR
  construction, the signing RPC and certificate parsing) are outside the entry; what
  each returns during one call is given by the environment. \<^verbatim>\<open>ParseCert\<close> yields the
  authority key id of the certificate, \<^verbatim>\<open>HexString\<close> its hexadecimal form. The service
  identity is the tuple (host, datacenter, namespace, service), the signing request the
  tuple (token, datacenter, CSR).
\<close>

record leaf_env =
  cacheGet :: cache_get
  GeneratePrivateKey :: "error + (string \<times> string)"
  CreateCSR :: "string \<times> string \<times> string \<times> string \<Rightarrow> string \<Rightarrow> error + string"
  Sign :: "string \<times> string \<times> string \<Rightarrow> error + IssuedCert"
  ParseCert :: "string \<Rightarrow> error + string"
  HexString :: "string \<Rightarrow> string"

definition rootsFromCache :: "cache_get \<Rightarrow> error + IndexedCARoots" where
  "rootsFromCache g =
     (case g of
        GetError e \<Rightarrow> Inl e
      | GetOther \<Rightarrow> Inl InvalidRootCAResponseType
      | GetRoots roots \<Rightarrow> Inr roots)"

text \<open>
  What a call hands back: the \<^verbatim>\<open>FetchResult\<close> and the error of the Go return pair, and
  the contents of the object behind the \<^verbatim>\<open>state\<close> pointer when the call returns (the
  caller holds the same pointer, so it sees every assignment made through it, whatever
  is returned).
\<close>

record leaf_return =
  leaf_result :: FetchResult
  leaf_err :: "error option"
  leaf_state :: "fetchState option"

definition zeroResult :: FetchResult where
  "zeroResult = \<lparr>Value = NilValue, State = NilState, Index = 0\<rparr>"

definition leafFails :: "error \<Rightarrow> fetchState option \<Rightarrow> leaf_return" where
  "leafFails e state = \<lparr>leaf_result = zeroResult, leaf_err = Some e, leaf_state = state\<rparr>"

definition generateNewLeaf ::
  "leaf_env \<Rightarrow> ConnectCALeafRequest \<Rightarrow> fetchState option \<Rightarrow> leaf_return" where
  "generateNewLeaf env req state =
     (case rootsFromCache (cacheGet env) of
        Inl e \<Rightarrow> leafFails e state
      | Inr roots \<Rightarrow>
          if TrustDomain roots = [] then leafFails NoCABootstrapped state
          else
            (let serviceID = (TrustDomain roots, Datacenter req, ''default'', Service req) in
             case GeneratePrivateKey env of
               Inl e \<Rightarrow> leafFails e state
             | Inr (pk, pkPEM) \<Rightarrow>
                 (case CreateCSR env serviceID pk of
                    Inl e \<Rightarrow> leafFails e state
                  | Inr csr \<Rightarrow>
                      (case Sign env (Token req, Datacenter req, csr) of
                         Inl e \<Rightarrow> leafFails e state
                       | Inr signed \<Rightarrow>
                           (let reply = signed\<lparr>PrivateKeyPEM := pkPEM\<rparr> in
                            case state of
                              None \<Rightarrow> leafFails NilDereference None
                            | Some st \<Rightarrow>
                                (let st1 = st\<lparr>forceExpireAfter := 0\<rparr> in
                                 case ParseCert env (CertPEM reply) of
                                   Inl e \<Rightarrow> leafFails e (Some st1)
                                 | Inr keyId \<Rightarrow>
                                     (let st2 = st1\<lparr>authorityKeyID := HexString env keyId\<rparr>
                                      in \<lparr>leaf_result =
                                            \<lparr>Value = CertValue (Some reply),
                                             State = LeafState (Some st2),
                                             Index = ModifyIndex reply\<rparr>,
                                          leaf_err = None,
                                          leaf_state = Some st2\<rparr>)))))))"

section \<open>The fetch state machine\<close>

fun activeRootHasKey_loop :: "CARoot list \<Rightarrow> string \<Rightarrow> bool" where
  "activeRootHasKey_loop [] currentSigningKeyID = False"
| "activeRootHasKey_loop (ca # cas) currentSigningKeyID =
     (if Active ca
      then (if SigningKeyID ca = currentSigningKeyID then True else False)
      else activeRootHasKey_loop cas currentSigningKeyID)"

definition activeRootHasKey :: "IndexedCARoots \<Rightarrow> string \<Rightarrow> bool" where
  "activeRootHasKey roots currentSigningKeyID =
     activeRootHasKey_loop (Roots roots) currentSigningKeyID"

text \<open>
  Modelled from the spec: \<^verbatim>\<open>lib.RandomStagger\<close> is not among the sources. The spec has
  the delay drawn uniformly from \<open>[0, intv]\<close>; \<open>r\<close> is the random number behind the
  draw, and every value of the interval is the image of some \<open>r\<close>.
\<close>

definition RandomStagger :: "int \<Rightarrow> duration \<Rightarrow> duration" where
  "RandomStagger r intv = (if intv \<le> 0 then 0 else r mod (intv + 1))"

text \<open>
  The wait loop runs on a logical clock. Handling an event takes no time, so the
  instant at which a \<^verbatim>\<open>select\<close> is entered is the instant the previous event fired, and
  \<^verbatim>\<open>time.Now()\<close> reads it. \<^verbatim>\<open>time.After d\<close> created at \<open>t\<close> is ready from \<open>t + d\<close>
  on, at once when \<open>d \<le> 0\<close>. A notification is what this call receives on its
  \<^verbatim>\<open>rootUpdateCh\<close>: the instant the value is in the channel, what \<^verbatim>\<open>Cache.Get\<close> returns
  when the roots are reloaded, and the random number of the jitter draw. The
  \<^verbatim>\<open>select\<close> proceeds at the first instant at which a case is ready and chooses among
  the cases ready then by a random number.
\<close>

record notification =
  arrival :: time
  rootsGet :: cache_get
  draw :: int

datatype select_result =
    TimeoutFired time
  | ExpiryFired time
  | UpdateReceived time notification "notification list"

definition timerReady :: "time \<Rightarrow> duration \<Rightarrow> time" where
  "timerReady t d = (if d \<le> 0 then t else t + d)"

definition select_wait ::
  "nat \<Rightarrow> time \<Rightarrow> duration \<Rightarrow> duration \<Rightarrow> notification list \<Rightarrow> select_result" where
  "select_wait pick t timeout untilExpiry ns =
     (let tTimeout = timerReady t timeout;
          tExpiry = timerReady t untilExpiry;
          first = (case ns of
                     [] \<Rightarrow> min tTimeout tExpiry
                   | n # rest \<Rightarrow> min (min tTimeout tExpiry) (max t (arrival n)));
          ready = (if tTimeout = first then [TimeoutFired first] else []) @
                  (if tExpiry = first then [ExpiryFired first] else []) @
                  (case ns of
                     [] \<Rightarrow> []
                   | n # rest \<Rightarrow>
                       if max t (arrival n) = first then [UpdateReceived first n rest] else [])
      in ready ! (pick mod length ready))"

definition effectiveJitter :: "ConnectCALeaf \<Rightarrow> duration" where
  "effectiveJitter c =
     (if 0 < testSetCAChangeInitialJitter c
      then testSetCAChangeInitialJitter c else caChangeInitialJitter)"

text \<open>What the handling of one notification at instant \<open>now\<close> leaves: an error from
  the roots cache, or the state and the target expiry with which the loop goes on.\<close>

datatype update_outcome = ReadFailed error | KeepWaiting fetchState time

definition onRootUpdate ::
  "ConnectCALeaf \<Rightarrow> time \<Rightarrow> time \<Rightarrow> fetchState \<Rightarrow> notification \<Rightarrow> update_outcome" where
  "onRootUpdate c now expiresAt state n =
     (case rootsFromCache (rootsGet n) of
        Inl e \<Rightarrow> ReadFailed e
      | Inr roots \<Rightarrow>
          if activeRootHasKey roots (authorityKeyID state) then KeepWaiting state expiresAt
          else
            (let jitter = effectiveJitter c;
                 delay = RandomStagger (draw n) jitter;
                 state' = state\<lparr>forceExpireAfter := time_Add now delay\<rparr>
             in KeepWaiting state'
                  (if time_Before (forceExpireAfter state') expiresAt
                   then forceExpireAfter state' else expiresAt)))"

datatype loop_exit =
    TimedOut time fetchState
  | Expired time fetchState
  | RootsFailed time error fetchState



lemma select_wait_cases:
  "(\<exists>t'. select_wait pick t timeout untilExpiry ns = TimeoutFired t')
   \<or> (\<exists>t'. select_wait pick t timeout untilExpiry ns = ExpiryFired t')
   \<or> (\<exists>t' n rest. select_wait pick t timeout untilExpiry ns = UpdateReceived t' n rest
        \<and> ns = n # rest)"
proof -
  define tTimeout where "tTimeout = timerReady t timeout"
  define tExpiry where "tExpiry = timerReady t untilExpiry"
  define first where "first = (case ns of [] \<Rightarrow> min tTimeout tExpiry
     | n # rest \<Rightarrow> min (min tTimeout tExpiry) (max t (arrival n)))"
  define ready where "ready = (if tTimeout = first then [TimeoutFired first] else []) @
                  (if tExpiry = first then [ExpiryFired first] else []) @
                  (case ns of [] \<Rightarrow> []
                   | n # rest \<Rightarrow>
                       if max t (arrival n) = first then [UpdateReceived first n rest] else [])"
  have sel: "select_wait pick t timeout untilExpiry ns = ready ! (pick mod length ready)"
    unfolding select_wait_def Let_def ready_def first_def tTimeout_def tExpiry_def ..
  have ne: "ready \<noteq> []"
    by (cases ns) (auto simp: ready_def first_def min_def)
  then have "ready ! (pick mod length ready) \<in> set ready" by simp
  moreover have "\<forall>x \<in> set ready. (\<exists>t'. x = TimeoutFired t') \<or> (\<exists>t'. x = ExpiryFired t')
     \<or> (\<exists>t' n rest. x = UpdateReceived t' n rest \<and> ns = n # rest)"
    by (cases ns) (auto simp: ready_def)
  ultimately show ?thesis unfolding sel by blast
qed

lemma select_wait_update:
  "select_wait pick t timeout untilExpiry ns = UpdateReceived t' n rest \<Longrightarrow> ns = n # rest"
  using select_wait_cases[of pick t timeout untilExpiry ns] by auto

function waitLoop ::
  "ConnectCALeaf \<Rightarrow> duration \<Rightarrow> (nat \<Rightarrow> nat) \<Rightarrow> nat \<Rightarrow> time \<Rightarrow> time \<Rightarrow> fetchState
     \<Rightarrow> notification list \<Rightarrow> loop_exit" where
  "waitLoop c timeout picks i t expiresAt state ns =
     (case select_wait (picks i) t timeout (time_Sub expiresAt t) ns of
        TimeoutFired t' \<Rightarrow> TimedOut t' state
      | ExpiryFired t' \<Rightarrow> Expired t' state
      | UpdateReceived t' n rest \<Rightarrow>
          (case onRootUpdate c t' expiresAt state n of
             ReadFailed e \<Rightarrow> RootsFailed t' e state
           | KeepWaiting state' expiresAt' \<Rightarrow>
               waitLoop c timeout picks (Suc i) t' expiresAt' state' rest))"
  by pat_completeness auto
termination
  by (relation "measure (\<lambda>(c, timeout, picks, i, t, expiresAt, state, ns). length ns)")
    (auto dest: select_wait_update)

definition lastResultTypes ::
  "FetchOptions \<Rightarrow> error + (IssuedCert option \<times> fetchState option)" where
  "lastResultTypes opts =
     (case LastResult opts of
        None \<Rightarrow> Inr (None, Some \<lparr>authorityKeyID = [], forceExpireAfter = 0\<rparr>)
      | Some lr \<Rightarrow>
          (case Value lr of
             CertValue existing \<Rightarrow>
               (case State lr of
                  LeafState state \<Rightarrow> Inr (existing, state)
                | _ \<Rightarrow> Inl LastStateWrongType)
           | _ \<Rightarrow> Inl LastValueWrongType))"

text \<open>
  The environment of one \<open>Fetch\<close> call: the instant it is entered (which
  \<^verbatim>\<open>time.Now()\<close> reads before the loop), the random number behind the first stagger, the
  channel it makes, the notifications it receives, the random choices of its
  \<^verbatim>\<open>select\<close>s, and the collaborators of the one \<open>generateNewLeaf\<close> it may call.
  The return carries, beside the Go return pair, the contents of the state object, the
  instant the call left the wait (or was entered, when it did not wait), the entry after
  the deferred \<open>fetchDone\<close>, and the path taken.
\<close>

record fetch_env =
  entered :: time
  stagger :: int
  rootUpdateCh :: chan
  notifications :: "notification list"
  picks :: "nat \<Rightarrow> nat"
  leaf :: leaf_env

datatype fetch_path =
    TypeMismatch
  | NoPriorValue
  | ExpiredOnEntry
  | TimedOutWaiting
  | ExpiredWaiting
  | RootsReadFailed

record fetch_return =
  ret_result :: FetchResult
  ret_err :: "error option"
  ret_state :: "fetchState option"
  ret_at :: time
  ret_entry :: ConnectCALeaf
  ret_path :: fetch_path

definition fromLeaf ::
  "fetch_path \<Rightarrow> time \<Rightarrow> ConnectCALeaf \<Rightarrow> leaf_return \<Rightarrow> fetch_return" where
  "fromLeaf path t c r =
     \<lparr>ret_result = leaf_result r, ret_err = leaf_err r, ret_state = leaf_state r,
      ret_at = t, ret_entry = c, ret_path = path\<rparr>"

definition preseeded :: "IssuedCert \<Rightarrow> fetchState \<Rightarrow> FetchResult" where
  "preseeded existing state =
     \<lparr>Value = CertValue (Some existing), State = LeafState (Some state),
      Index = ModifyIndex existing\<rparr>"

text \<open>What \<open>Fetch\<close> returns once the wait loop is left.\<close>

definition afterWait ::
  "fetch_env \<Rightarrow> ConnectCALeaf \<Rightarrow> ConnectCALeafRequest \<Rightarrow> IssuedCert \<Rightarrow> loop_exit
     \<Rightarrow> fetch_return" where
  "afterWait env c reqReal existing x =
     (case x of
        TimedOut t state \<Rightarrow>
          \<lparr>ret_result = preseeded existing state, ret_err = None, ret_state = Some state,
           ret_at = t, ret_entry = c, ret_path = TimedOutWaiting\<rparr>
      | Expired t state \<Rightarrow>
          fromLeaf ExpiredWaiting t c (generateNewLeaf (leaf env) reqReal (Some state))
      | RootsFailed t e state \<Rightarrow>
          \<lparr>ret_result = preseeded existing state, ret_err = Some e, ret_state = Some state,
           ret_at = t, ret_entry = c, ret_path = RootsReadFailed\<rparr>)"

text \<open>The path with a cached certificate, from the registration with the watcher on.
  \<^verbatim>\<open>expiresAt == now\<close> is read as equality of instants.\<close>

definition cachedFetch ::
  "fetch_env \<Rightarrow> ConnectCALeaf \<Rightarrow> duration \<Rightarrow> ConnectCALeafRequest \<Rightarrow> IssuedCert
     \<Rightarrow> fetchState \<Rightarrow> fetch_return" where
  "cachedFetch env c timeout reqReal existing state =
     (let c1 = fetchStart (rootUpdateCh env) c;
          now = entered env;
          (minExpire, maxExpire) = calculateSoftExpiry now existing;
          expiresAt0 = time_Add minExpire
                         (RandomStagger (stagger env) (time_Sub maxExpire minExpire));
          expiresAt = (if \<not> time_IsZero (forceExpireAfter state)
                          \<and> time_Before (forceExpireAfter state) expiresAt0
                       then forceExpireAfter state else expiresAt0)
      in if expiresAt = now \<or> time_Before expiresAt now
         then fromLeaf ExpiredOnEntry now (fetchDone (rootUpdateCh env) c1)
                (generateNewLeaf (leaf env) reqReal (Some state))
         else afterWait env (fetchDone (rootUpdateCh env) c1) reqReal existing
                (waitLoop c1 timeout (picks env) 0 now expiresAt state (notifications env)))"

definition Fetch ::
  "fetch_env \<Rightarrow> ConnectCALeaf \<Rightarrow> FetchOptions \<Rightarrow> cache_request \<Rightarrow> fetch_return" where
  "Fetch env c opts req =
     (case req of
        OtherRequest \<Rightarrow>
          \<lparr>ret_result = zeroResult, ret_err = Some RequestWrongType, ret_state = None,
           ret_at = entered env, ret_entry = c, ret_path = TypeMismatch\<rparr>
      | LeafRequest reqReal \<Rightarrow>
          (case lastResultTypes opts of
             Inl e \<Rightarrow>
               \<lparr>ret_result = zeroResult, ret_err = Some e, ret_state = None,
                ret_at = entered env, ret_entry = c, ret_path = TypeMismatch\<rparr>
           | Inr (existing, state) \<Rightarrow>
               (case existing of
                  None \<Rightarrow>
                    fromLeaf NoPriorValue (entered env) c
                      (generateNewLeaf (leaf env) reqReal state)
                | Some ex \<Rightarrow>
                    (case state of
                       None \<Rightarrow>
                         fromLeaf NoPriorValue (entered env) c
                           (generateNewLeaf (leaf env) reqReal state)
                     | Some st \<Rightarrow> cachedFetch env c (Timeout opts) reqReal ex st))))"

section \<open>Scenarios\<close>

text \<open>
  The inputs of the end-to-end scenarios: a certificate valid from 10:00 to 13:00 signed
  by the root with key \<open>k1\<close>, roots snapshots whose active root signs with \<open>k1\<close> and
  with \<open>k2\<close>, a call entered at 10:30:00 with no forced expiry pending, and
  collaborators that succeed unless said otherwise.
\<close>

definition scenario_cert :: IssuedCert where
  "scenario_cert =
     \<lparr>CertPEM = ''old-cert'', PrivateKeyPEM = ''old-key'', ValidAfter = 36000 * Second,
      ValidBefore = 46800 * Second, ModifyIndex = 7\<rparr>"

definition roots_R1 :: IndexedCARoots where
  "roots_R1 =
     \<lparr>ActiveRootID = ''R1'', TrustDomain = ''cluster.consul'',
      Roots = [\<lparr>SigningKeyID = ''k1'', Active = True\<rparr>]\<rparr>"

definition roots_R2 :: IndexedCARoots where
  "roots_R2 =
     \<lparr>ActiveRootID = ''R2'', TrustDomain = ''cluster.consul'',
      Roots = [\<lparr>SigningKeyID = ''k1'', Active = False\<rparr>,
               \<lparr>SigningKeyID = ''k2'', Active = True\<rparr>]\<rparr>"

definition scenario_leaf :: leaf_env where
  "scenario_leaf =
     \<lparr>cacheGet = GetRoots roots_R2,
      GeneratePrivateKey = Inr (''new-key'', ''new-key-pem''),
      CreateCSR = (\<lambda>serviceID pk. Inr ''csr''),
      Sign = (\<lambda>args. Inr \<lparr>CertPEM = ''new-cert'', PrivateKeyPEM = [],
                ValidAfter = 37800 * Second, ValidBefore = 48600 * Second, ModifyIndex = 42\<rparr>),
      ParseCert = (\<lambda>pem. Inr ''k2''),
      HexString = (\<lambda>keyId. keyId)\<rparr>"

definition scenario_env :: "notification list \<Rightarrow> fetch_env" where
  "scenario_env ns =
     \<lparr>entered = 37800 * Second, stagger = 0, rootUpdateCh = 1, notifications = ns,
      picks = (\<lambda>i. 0), leaf = scenario_leaf\<rparr>"

definition scenario_state :: fetchState where
  "scenario_state = \<lparr>authorityKeyID = ''k1'', forceExpireAfter = 0\<rparr>"

definition scenario_opts :: "duration \<Rightarrow> FetchOptions" where
  "scenario_opts timeout =
     \<lparr>Timeout = timeout,
      LastResult = Some \<lparr>Value = CertValue (Some scenario_cert),
                         State = LeafState (Some scenario_state), Index = 7\<rparr>\<rparr>"

definition scenario_req :: cache_request where
  "scenario_req =
     LeafRequest \<lparr>Token = ''token'', Datacenter = ''dc1'', Service = ''web'',
                  MinQueryIndex = 7\<rparr>"

section \<open>Rounding to 53 significant bits\<close>

text \<open>The rounding moves a non-negative integer by at most half a unit in the last
  place, that is by at most \<open>2 ^ -53\<close> of its value.\<close>

lemma round53_small: "bitlen n \<le> 53 \<Longrightarrow> round53 n = n"
  by (simp add: round53_def)

lemma round53_err:
  assumes "0 < n" "53 < bitlen n"
  shows "\<bar>round53 n - n\<bar> \<le> 2 ^ nat (bitlen n - 54)" and "2 ^ nat (bitlen n - 1) \<le> n"
proof -
  define s where "s = nat (bitlen n - 53)"
  have s: "0 < s" "bitlen n - 53 = int s" using assms by (auto simp: s_def)
  define q where "q = n div 2 ^ s"
  define r where "r = n mod 2 ^ s"
  define h :: int where "h = 2 ^ (s - 1)"
  have n: "n = q * 2 ^ s + r" unfolding q_def r_def by (rule div_mult_mod_eq[symmetric])
  have r: "0 \<le> r" "r < 2 ^ s" by (simp_all add: r_def)
  have hh: "(2::int) ^ s = 2 * h" using s(1) by (cases s) (simp_all add: h_def)
  have eq: "round53 n = (if r < h \<or> (r = h \<and> even q) then q else q + 1) * 2 ^ s"
  proof -
    have a: "\<not> bitlen n - 53 \<le> 0" using s by linarith
    have b: "nat (bitlen n - 53) = s" by (simp add: s_def)
    have c: "nat (bitlen n - 53 - 1) = s - 1" using s by linarith
    show ?thesis
      unfolding round53_def Let_def q_def r_def h_def if_not_P[OF a] b c ..
  qed
  have "\<bar>round53 n - n\<bar> \<le> h"
  proof (cases "r < h \<or> (r = h \<and> even q)")
    case True
    then have "round53 n - n = - r" using eq n by simp
    moreover have "r \<le> h" using True by auto
    ultimately show ?thesis using r by linarith
  next
    case False
    then have "round53 n = (q + 1) * 2 ^ s" using eq by simp
    then have "round53 n - n = 2 ^ s - r" using n by (simp add: algebra_simps)
    moreover have "h \<le> r" using False by auto
    ultimately show ?thesis using r hh by linarith
  qed
  moreover have "nat (bitlen n - 54) = s - 1" using s by linarith
  ultimately show "\<bar>round53 n - n\<bar> \<le> 2 ^ nat (bitlen n - 54)" by (simp add: h_def)
  show "2 ^ nat (bitlen n - 1) \<le> n" using bitlen_bounds[OF assms(1)] by simp
qed

lemma round53_rel:
  assumes "0 \<le> n"
  shows "\<bar>round53 n - n\<bar> * 2 ^ 53 \<le> n"
proof (cases "bitlen n \<le> 53")
  case True
  then show ?thesis using assms by (simp add: round53_small)
next
  case False
  then have b: "53 < bitlen n" by simp
  then have pos: "0 < n" using assms bitlen_eq_zero_iff[of n] by (cases "n = 0") auto
  have "\<bar>round53 n - n\<bar> * 2 ^ 53 \<le> 2 ^ nat (bitlen n - 54) * (2 ^ 53 :: int)"
    using round53_err(1)[OF pos b] by (simp add: mult_right_mono)
  also have "\<dots> = 2 ^ (nat (bitlen n - 54) + 53)" by (simp add: power_add)
  also have "nat (bitlen n - 54) + 53 = nat (bitlen n - 1)" using b by simp
  also have "2 ^ nat (bitlen n - 1) \<le> n" by (rule round53_err(2)[OF pos b])
  finally show ?thesis .
qed


lemma round53_upper:
  assumes "0 \<le> n"
  shows "round53 n * 2 ^ 53 \<le> n * (2 ^ 53 + 1)"
proof -
  have "(round53 n - n) * 2 ^ 53 \<le> \<bar>round53 n - n\<bar> * 2 ^ 53"
    by (rule mult_right_mono) simp_all
  also have "\<dots> \<le> n" using assms by (rule round53_rel)
  finally show ?thesis by (simp add: algebra_simps)
qed

lemma round53_lower:
  assumes "0 \<le> n"
  shows "n * (2 ^ 53 - 1) \<le> round53 n * 2 ^ 53"
proof -
  have "(n - round53 n) * 2 ^ 53 \<le> \<bar>round53 n - n\<bar> * 2 ^ 53"
    by (rule mult_right_mono) simp_all
  also have "\<dots> \<le> n" using assms by (rule round53_rel)
  finally show ?thesis by (simp add: algebra_simps)
qed

lemma round53_nonneg: "0 \<le> n \<Longrightarrow> 0 \<le> round53 n"
  using round53_lower[of n] by (simp add: zero_le_mult_iff)

lemma scaleDuration_pos:
  assumes "0 \<le> d" "0 \<le> m"
  shows "scaleDuration m d = round53 (round53 d * m) div 2 ^ 53"
proof -
  have F: "0 \<le> round53 d" using assms(1) by (rule round53_nonneg)
  have f: "float64_of_int d = round53 d"
    using assms(1) F by (cases "d = 0") (simp_all add: float64_of_int_def round53_def)
  have P: "0 \<le> round53 (round53 d * m)" using F assms(2) by (simp add: round53_nonneg)
  have z: "round53 0 = 0" by (simp add: round53_def)
  have p: "sgn (round53 d) * round53 (\<bar>round53 d\<bar> * m) = round53 (round53 d * m)"
    using F z by (cases "round53 d = 0") simp_all
  show ?thesis
    unfolding scaleDuration_def Let_def f p using P
    by (cases "round53 (round53 d * m) = 0") simp_all
qed

lemma scale_0_9_le:
  assumes "0 \<le> d"
  shows "scaleDuration f64_0_9 d \<le> d"
proof -
  define F where "F = round53 d"
  define P where "P = round53 (F * f64_0_9)"
  have F0: "0 \<le> F" unfolding F_def using assms by (rule round53_nonneg)
  have F1: "F * 2 ^ 53 \<le> d * (2 ^ 53 + 1)" unfolding F_def using assms by (rule round53_upper)
  have Fm: "0 \<le> F * f64_0_9" using F0 by (simp add: f64_0_9_def)
  have P1: "P * 2 ^ 53 \<le> F * f64_0_9 * (2 ^ 53 + 1)" unfolding P_def using Fm by (rule round53_upper)
  have "P * 2 ^ 53 * 2 ^ 53 \<le> F * f64_0_9 * (2 ^ 53 + 1) * 2 ^ 53"
    using P1 by (rule mult_right_mono) simp
  also have "\<dots> = (F * 2 ^ 53) * (f64_0_9 * (2 ^ 53 + 1))" by (simp add: algebra_simps)
  also have "\<dots> \<le> (d * (2 ^ 53 + 1)) * (f64_0_9 * (2 ^ 53 + 1))"
    using F1 by (rule mult_right_mono) (simp add: f64_0_9_def)
  also have "\<dots> = d * (f64_0_9 * (2 ^ 53 + 1) * (2 ^ 53 + 1))" by (simp add: algebra_simps)
  also have "\<dots> \<le> d * (2 ^ 53 * 2 ^ 53 * 2 ^ 53)"
    using assms by (intro mult_left_mono) (simp_all add: f64_0_9_def)
  finally have "P * (2 ^ 53 * 2 ^ 53) \<le> (d * 2 ^ 53) * (2 ^ 53 * 2 ^ 53)" by (simp add: algebra_simps)
  then have "P \<le> d * 2 ^ 53" by simp
  then have "P div 2 ^ 53 \<le> d * 2 ^ 53 div 2 ^ 53" by (rule zdiv_mono1) simp
  then have "P div 2 ^ 53 \<le> d" by simp
  then show ?thesis using scaleDuration_pos[OF assms, of f64_0_9] by (simp add: P_def F_def f64_0_9_def)
qed

lemma scale_0_6_le_0_9:
  assumes "0 \<le> d"
  shows "scaleDuration f64_0_6 d \<le> scaleDuration f64_0_9 d"
proof -
  define F where "F = round53 d"
  have F0: "0 \<le> F" unfolding F_def using assms by (rule round53_nonneg)
  have m6: "0 \<le> F * f64_0_6" and m9: "0 \<le> F * f64_0_9" using F0 by (simp_all add: f64_0_6_def f64_0_9_def)
  have "round53 (F * f64_0_6) * 2 ^ 53 \<le> F * f64_0_6 * (2 ^ 53 + 1)" using m6 by (rule round53_upper)
  also have "\<dots> = F * (f64_0_6 * (2 ^ 53 + 1))" by (simp add: algebra_simps)
  also have "\<dots> \<le> F * (f64_0_9 * (2 ^ 53 - 1))"
    by (rule mult_left_mono) (simp_all add: f64_0_6_def f64_0_9_def F0)
  also have "\<dots> = F * f64_0_9 * (2 ^ 53 - 1)" by (simp add: algebra_simps)
  also have "\<dots> \<le> round53 (F * f64_0_9) * 2 ^ 53" using m9 by (rule round53_lower)
  finally have "round53 (F * f64_0_6) \<le> round53 (F * f64_0_9)" by simp
  then have "round53 (F * f64_0_6) div 2 ^ 53 \<le> round53 (F * f64_0_9) div 2 ^ 53"
    by (rule zdiv_mono1) simp
  then show ?thesis
    using scaleDuration_pos[OF assms, of f64_0_6] scaleDuration_pos[OF assms, of f64_0_9]
    by (simp add: F_def f64_0_6_def f64_0_9_def)
qed


lemma time_Sub_le:
  assumes "u \<le> t"
  shows "0 \<le> time_Sub t u" and "time_Sub t u \<le> t - u"
  using assms by (simp_all add: time_Sub_def Let_def maxDuration_def minDuration_def)

lemma time_Sub_id: "minDuration \<le> t - u \<Longrightarrow> t - u \<le> maxDuration \<Longrightarrow> time_Sub t u = t - u"
  by (simp add: time_Sub_def Let_def)

lemma round53_exact:
  assumes lo: "2 ^ 53 \<le> n" and hi: "n < 2 ^ 106"
    and near: "\<bar>n - c * 2 ^ 53\<bar> * 2 ^ 54 \<le> n"
  shows "round53 n = c * 2 ^ 53"
proof -
  have pos: "0 < n" using lo by simp
  have b1: "54 \<le> bitlen n" using lo by (simp add: bitlen_ge_iff_power)
  have b2: "bitlen n \<le> 106" using hi by (simp add: bitlen_le_iff_power)
  define s where "s = nat (bitlen n - 53)"
  have s: "1 \<le> s" "s \<le> 53" "bitlen n = int s + 53" using b1 b2 by (simp_all add: s_def)
  define h :: int where "h = 2 ^ (s - 1)"
  have hh: "(2::int) ^ s = 2 * h" using s(1) by (cases s) (simp_all add: h_def)
  have hpos: "0 < h" by (simp add: h_def)
  define T where "T = c * 2 ^ 53"
  define c' where "c' = c * 2 ^ (53 - s)"
  have "(2::int) ^ 53 = 2 ^ (53 - s) * 2 ^ s" using s(2) by (simp flip: power_add)
  then have T: "T = c' * 2 ^ s" by (simp add: T_def c'_def)
  have "n < 2 ^ nat (bitlen n)" using bitlen_bounds[OF pos] by simp
  also have "nat (bitlen n) = (s - 1) + 54" using s by linarith
  finally have "n < h * 2 ^ 54" by (simp add: h_def power_add)
  with near have "\<bar>n - T\<bar> * 2 ^ 54 < h * 2 ^ 54" by (simp add: T_def)
  then have d: "\<bar>n - T\<bar> < h" by simp
  have eq: "round53 n = (if n mod 2 ^ s < h \<or> (n mod 2 ^ s = h \<and> even (n div 2 ^ s))
      then n div 2 ^ s else n div 2 ^ s + 1) * 2 ^ s"
  proof -
    have a: "\<not> bitlen n - 53 \<le> 0" using s by linarith
    have b: "nat (bitlen n - 53) = s" by (simp add: s_def)
    have c: "nat (bitlen n - 53 - 1) = s - 1" using s by linarith
    show ?thesis
      unfolding round53_def Let_def h_def if_not_P[OF a] b c ..
  qed
  show ?thesis
  proof (cases "T \<le> n")
    case True
    define r where "r = n - T"
    have r: "0 \<le> r" "r < h" "r < 2 ^ s" using True d hh hpos by (simp_all add: r_def)
    have n: "n = c' * 2 ^ s + r" by (simp add: r_def T)
    have "n div 2 ^ s = c'" unfolding n using r by (simp add: div_pos_pos_trivial)
    moreover have "n mod 2 ^ s = r" unfolding n using r by (simp add: mod_pos_pos_trivial)
    ultimately show ?thesis using eq r T by (simp add: T_def)
  next
    case False
    define r where "r = 2 ^ s - (T - n)"
    have r: "0 \<le> r" "h < r" "r < 2 ^ s" using False d hh hpos by (simp_all add: r_def)
    have n: "n = (c' - 1) * 2 ^ s + r" by (simp add: r_def T algebra_simps)
    have "n div 2 ^ s = c' - 1" unfolding n using r by (simp add: div_pos_pos_trivial)
    moreover have "n mod 2 ^ s = r" unfolding n using r by (simp add: mod_pos_pos_trivial)
    ultimately show ?thesis using eq r T by (simp add: T_def)
  qed
qed

lemma scaleDuration_exact:
  assumes d: "0 < d" "d < 2 ^ 53" and m: "0 < m" "m < 2 ^ 53"
    and lo: "2 ^ 53 \<le> d * m"
    and near: "\<bar>d * m - c * 2 ^ 53\<bar> * 2 ^ 54 \<le> d * m"
  shows "scaleDuration m d = c"
proof -
  have "bitlen d \<le> 53" using d by (simp add: bitlen_le_iff_power)
  then have f: "round53 d = d" by (rule round53_small)
  have "d * m < 2 ^ 53 * 2 ^ 53" using d m by (intro mult_strict_mono) simp_all
  then have hi: "d * m < 2 ^ 106" by simp
  have "round53 (d * m) = c * 2 ^ 53" using lo hi near by (rule round53_exact)
  then show ?thesis using scaleDuration_pos[of d m] d m f by simp
qed

lemma scale_0_6_exact:
  assumes "0 < j" "5 * j < 2 ^ 53"
  shows "scaleDuration f64_0_6 (5 * j) = 3 * j"
proof (rule scaleDuration_exact)
  show "0 < 5 * j" "5 * j < 2 ^ 53" using assms by simp_all
  show "0 < f64_0_6" "f64_0_6 < 2 ^ 53" by (simp_all add: f64_0_6_def)
  show "2 ^ 53 \<le> 5 * j * f64_0_6" using assms by (simp add: f64_0_6_def)
  have "5 * j * f64_0_6 - 3 * j * 2 ^ 53 = - j" by (simp add: f64_0_6_def)
  then show "\<bar>5 * j * f64_0_6 - 3 * j * 2 ^ 53\<bar> * 2 ^ 54 \<le> 5 * j * f64_0_6"
    using assms by (simp add: f64_0_6_def)
qed

lemma scale_0_9_exact:
  assumes "0 < j" "10 * j < 2 ^ 53"
  shows "scaleDuration f64_0_9 (10 * j) = 9 * j"
proof (rule scaleDuration_exact)
  show "0 < 10 * j" "10 * j < 2 ^ 53" using assms by simp_all
  show "0 < f64_0_9" "f64_0_9 < 2 ^ 53" by (simp_all add: f64_0_9_def)
  show "2 ^ 53 \<le> 10 * j * f64_0_9" using assms by (simp add: f64_0_9_def)
  have "10 * j * f64_0_9 - 9 * j * 2 ^ 53 = 2 * j" by (simp add: f64_0_9_def)
  then show "\<bar>10 * j * f64_0_9 - 9 * j * 2 ^ 53\<bar> * 2 ^ 54 \<le> 10 * j * f64_0_9"
    using assms by (simp add: f64_0_9_def)
qed

section \<open>The renewal window\<close>

text \<open>
  C4. For every instant \<open>now\<close> and certificate with
  \<open>ValidAfter < now < ValidBefore\<close>, the pair \<open>(min, max)\<close> returned by
  \<open>calculateSoftExpiry\<close> satisfies \<open>min \<le> max\<close>, \<open>now \<le> min\<close> and
  \<open>max \<le> ValidBefore\<close>.
\<close>

theorem calculateSoftExpiry_window:
  assumes "ValidAfter cert < now" and "now < ValidBefore cert"
  shows "fst (calculateSoftExpiry now cert) \<le> snd (calculateSoftExpiry now cert)
       \<and> now \<le> fst (calculateSoftExpiry now cert)
       \<and> snd (calculateSoftExpiry now cert) \<le> ValidBefore cert"
proof -
  define L where "L = time_Sub (ValidBefore cert) (ValidAfter cert)"
  have le: "ValidAfter cert \<le> ValidBefore cert" using assms by simp
  have L0: "0 \<le> L" and L1: "L \<le> ValidBefore cert - ValidAfter cert"
    unfolding L_def using time_Sub_le[OF le] by simp_all
  have h: "ValidAfter cert + scaleDuration f64_0_9 L \<le> ValidBefore cert"
    using scale_0_9_le[OF L0] L1 by simp
  have s: "scaleDuration f64_0_6 L \<le> scaleDuration f64_0_9 L"
    using L0 by (rule scale_0_6_le_0_9)
  show ?thesis
    using h s assms
    by (simp add: calculateSoftExpiry_def calculateSoftExpiry_branch_def Let_def
        L_def[symmetric] time_Add_def time_After_def)
qed

theorem calculateSoftExpiry_window_witness:
  "ValidAfter \<lparr>CertPEM = [], PrivateKeyPEM = [], ValidAfter = 36000 * Second,
       ValidBefore = 46800 * Second, ModifyIndex = 7\<rparr> < 37800 * Second
   \<and> 37800 * Second < ValidBefore \<lparr>CertPEM = [], PrivateKeyPEM = [],
       ValidAfter = 36000 * Second, ValidBefore = 46800 * Second, ModifyIndex = 7\<rparr>
   \<and> fst (calculateSoftExpiry (37800 * Second) \<lparr>CertPEM = [], PrivateKeyPEM = [],
       ValidAfter = 36000 * Second, ValidBefore = 46800 * Second, ModifyIndex = 7\<rparr>)
     \<le> snd (calculateSoftExpiry (37800 * Second) \<lparr>CertPEM = [], PrivateKeyPEM = [],
       ValidAfter = 36000 * Second, ValidBefore = 46800 * Second, ModifyIndex = 7\<rparr>)
   \<and> 37800 * Second \<le> fst (calculateSoftExpiry (37800 * Second) \<lparr>CertPEM = [],
       PrivateKeyPEM = [], ValidAfter = 36000 * Second, ValidBefore = 46800 * Second,
       ModifyIndex = 7\<rparr>)
   \<and> snd (calculateSoftExpiry (37800 * Second) \<lparr>CertPEM = [], PrivateKeyPEM = [],
       ValidAfter = 36000 * Second, ValidBefore = 46800 * Second, ModifyIndex = 7\<rparr>)
     \<le> 46800 * Second"
  using calculateSoftExpiry_window
    [of "\<lparr>CertPEM = [], PrivateKeyPEM = [], ValidAfter = 36000 * Second,
       ValidBefore = 46800 * Second, ModifyIndex = 7\<rparr>" "37800 * Second"]
  by (simp add: Second_def)

section \<open>The exact window\<close>

text \<open>
  C6, as the code has it. The two offsets are computed in float64 and truncated to whole
  nanoseconds. For every certificate whose lifetime \<open>L\<close> is at least 10 minutes, is a
  whole multiple of 10 ns and is below \<open>2 ^ 53\<close> ns (about 104 days), and every \<open>now\<close>
  with \<open>now \<le> ValidAfter + 0.6 L\<close>, \<open>calculateSoftExpiry\<close> returns exactly
  \<open>(ValidAfter + 0.6 L, ValidAfter + 0.9 L)\<close>; with \<open>L = 10 k\<close> these are
  \<open>ValidAfter + 6 k\<close> and \<open>ValidAfter + 9 k\<close>. In particular a certificate valid
  from 10:00 to 13:00 of any day has at 10:30 the window from 11:48 to 12:42.
\<close>

theorem calculateSoftExpiry_exact:
  assumes L: "ValidBefore cert - ValidAfter cert = 10 * k"
    and long: "10 * Minute \<le> 10 * k"
    and small: "10 * k < 2 ^ 53"
    and early: "now \<le> ValidAfter cert + 6 * k"
  shows "calculateSoftExpiry now cert = (ValidAfter cert + 6 * k, ValidAfter cert + 9 * k)
       \<and> calculateSoftExpiry (day + 37800 * Second)
            \<lparr>CertPEM = pem, PrivateKeyPEM = key, ValidAfter = day + 36000 * Second,
             ValidBefore = day + 46800 * Second, ModifyIndex = idx\<rparr>
           = (day + 42480 * Second, day + 45720 * Second)"
proof -
  have gen: "calculateSoftExpiry n c = (ValidAfter c + 6 * j, ValidAfter c + 9 * j)"
    if "ValidBefore c - ValidAfter c = 10 * j" "10 * Minute \<le> 10 * j" "10 * j < 2 ^ 53"
      "n \<le> ValidAfter c + 6 * j"
    for n j and c :: "'b IssuedCert_scheme"
  proof -
    have j: "0 < j" using that(2) by (simp add: Minute_def Second_def)
    have sub: "time_Sub (ValidBefore c) (ValidAfter c) = 10 * j"
      using that(1,3) j by (simp add: time_Sub_id minDuration_def maxDuration_def)
    have s6: "scaleDuration f64_0_6 (10 * j) = 6 * j"
      using scale_0_6_exact[of "2 * j"] j that(3) by simp
    have s9: "scaleDuration f64_0_9 (10 * j) = 9 * j"
      using scale_0_9_exact[of j] j that(3) by simp
    show ?thesis
      using that(2,4) j
      by (simp add: calculateSoftExpiry_def calculateSoftExpiry_branch_def Let_def sub s6 s9
          time_Add_def time_After_def)
  qed
  have "calculateSoftExpiry now cert = (ValidAfter cert + 6 * k, ValidAfter cert + 9 * k)"
    using L long small early by (rule gen)
  moreover have "calculateSoftExpiry (day + 37800 * Second)
            \<lparr>CertPEM = pem, PrivateKeyPEM = key, ValidAfter = day + 36000 * Second,
             ValidBefore = day + 46800 * Second, ModifyIndex = idx\<rparr>
           = (day + 42480 * Second, day + 45720 * Second)"
    using gen[of "\<lparr>CertPEM = pem, PrivateKeyPEM = key, ValidAfter = day + 36000 * Second,
             ValidBefore = day + 46800 * Second, ModifyIndex = idx\<rparr>" "1080 * Second"
             "day + 37800 * Second"]
    by (simp add: Second_def Minute_def)
  ultimately show ?thesis by simp
qed

theorem calculateSoftExpiry_exact_witness:
  "ValidBefore \<lparr>CertPEM = [], PrivateKeyPEM = [], ValidAfter = 0, ValidBefore = 3600 * Second,
       ModifyIndex = 1\<rparr>
     - ValidAfter \<lparr>CertPEM = [], PrivateKeyPEM = [], ValidAfter = 0, ValidBefore = 3600 * Second,
       ModifyIndex = 1\<rparr> = 10 * (360 * Second)
   \<and> 10 * Minute \<le> 10 * (360 * Second)
   \<and> 10 * (360 * Second) < 2 ^ 53
   \<and> 5 * Second \<le> ValidAfter \<lparr>CertPEM = [], PrivateKeyPEM = [], ValidAfter = 0,
       ValidBefore = 3600 * Second, ModifyIndex = 1\<rparr> + 6 * (360 * Second)
   \<and> calculateSoftExpiry (5 * Second) \<lparr>CertPEM = [], PrivateKeyPEM = [], ValidAfter = 0,
       ValidBefore = 3600 * Second, ModifyIndex = 1\<rparr> = (2160 * Second, 3240 * Second)"
  using calculateSoftExpiry_exact
    [of "\<lparr>CertPEM = [], PrivateKeyPEM = [], ValidAfter = 0, ValidBefore = 3600 * Second,
       ModifyIndex = 1\<rparr>" "360 * Second" "5 * Second"]
  by (simp add: Second_def Minute_def)

text \<open>
  C6 as stated fails in two ways. A lifetime of 10 minutes and 1 ns has
  \<open>0.6 L = 360000000000.6\<close> ns, which is no instant; the code returns the offset
  360000000000. A lifetime of 18014398509481990 ns is a multiple of 10 ns that float64
  does not hold exactly, and the upper end is 3 ns after \<open>ValidAfter + 0.9 L\<close>.
\<close>

theorem calculateSoftExpiry_exact_counterexample:
  "real_of_int (fst (calculateSoftExpiry 0 \<lparr>CertPEM = [], PrivateKeyPEM = [], ValidAfter = 0,
       ValidBefore = 600000000001, ModifyIndex = 1\<rparr>))
     \<noteq> real_of_int 0 + 0.6 * real_of_int (600000000001 - 0)
   \<and> real_of_int (snd (calculateSoftExpiry 0 \<lparr>CertPEM = [], PrivateKeyPEM = [], ValidAfter = 0,
       ValidBefore = 18014398509481990, ModifyIndex = 1\<rparr>))
     \<noteq> real_of_int 0 + 0.9 * real_of_int (18014398509481990 - 0)"
proof -
  have a: "calculateSoftExpiry 0 \<lparr>CertPEM = [], PrivateKeyPEM = [], ValidAfter = 0,
       ValidBefore = 600000000001, ModifyIndex = 1\<rparr> = (360000000000, 540000000000)"
    by code_simp
  have b: "calculateSoftExpiry 0 \<lparr>CertPEM = [], PrivateKeyPEM = [], ValidAfter = 0,
       ValidBefore = 18014398509481990, ModifyIndex = 1\<rparr>
       = (10808639105689194, 16212958658533794)"
    by code_simp
  show ?thesis unfolding a b by simp
qed

section \<open>The boundaries of the policy\<close>

text \<open>
  C9. The comparisons of \<open>calculateSoftExpiry\<close> are strict. A certificate whose
  lifetime is exactly 10 minutes is not treated as too short: its window is computed from
  the 6 and 9 minute marks. A lifetime of 10 minutes less 1 ns yields \<open>(now, now)\<close> by
  the too-short branch. When \<open>now\<close> equals \<open>hardRenewTime\<close> the hard-renew branch is
  not taken: the pair comes from the soft-window branch.
\<close>

theorem calculateSoftExpiry_strict_boundaries:
  "(ValidBefore c - ValidAfter c = 10 * Minute \<longrightarrow>
      calculateSoftExpiry_branch now c =
        (if ValidAfter c + 9 * Minute < now then (HardRenew, now, now)
         else if ValidAfter c + 6 * Minute < now then (SoftWindow, now, ValidAfter c + 9 * Minute)
         else (SoftWindow, ValidAfter c + 6 * Minute, ValidAfter c + 9 * Minute)))
 \<and> (ValidBefore c - ValidAfter c = 10 * Minute - 1 \<longrightarrow>
      calculateSoftExpiry_branch now c = (TooShort, now, now)
      \<and> calculateSoftExpiry now c = (now, now))
 \<and> (10 * Minute \<le> time_Sub (ValidBefore c) (ValidAfter c)
      \<and> now = time_Add (ValidAfter c)
            (scaleDuration f64_0_9 (time_Sub (ValidBefore c) (ValidAfter c))) \<longrightarrow>
      calculateSoftExpiry_branch now c = (SoftWindow, now, now))"
proof -
  have exact: "calculateSoftExpiry_branch now c =
        (if ValidAfter c + 9 * Minute < now then (HardRenew, now, now)
         else if ValidAfter c + 6 * Minute < now then (SoftWindow, now, ValidAfter c + 9 * Minute)
         else (SoftWindow, ValidAfter c + 6 * Minute, ValidAfter c + 9 * Minute))"
    if L: "ValidBefore c - ValidAfter c = 10 * Minute"
  proof -
  have sub: "time_Sub (ValidBefore c) (ValidAfter c) = 600000000000"
    using L by (simp add: time_Sub_id minDuration_def maxDuration_def Minute_def Second_def)
  have s6: "scaleDuration f64_0_6 600000000000 = 360000000000"
    using scale_0_6_exact[of 120000000000] by simp
  have s9: "scaleDuration f64_0_9 600000000000 = 540000000000"
    using scale_0_9_exact[of 60000000000] by simp
  show "calculateSoftExpiry_branch now c =
        (if ValidAfter c + 9 * Minute < now then (HardRenew, now, now)
         else if ValidAfter c + 6 * Minute < now then (SoftWindow, now, ValidAfter c + 9 * Minute)
         else (SoftWindow, ValidAfter c + 6 * Minute, ValidAfter c + 9 * Minute))"
    by (simp add: calculateSoftExpiry_branch_def Let_def sub s6 s9 time_Add_def time_After_def
        Minute_def Second_def)
  qed
  have short: "calculateSoftExpiry_branch now c = (TooShort, now, now)
      \<and> calculateSoftExpiry now c = (now, now)"
    if L: "ValidBefore c - ValidAfter c = 10 * Minute - 1"
  proof -
  have sub: "time_Sub (ValidBefore c) (ValidAfter c) = 10 * Minute - 1"
    using L by (simp add: time_Sub_id minDuration_def maxDuration_def Minute_def Second_def)
  show "calculateSoftExpiry_branch now c = (TooShort, now, now)
      \<and> calculateSoftExpiry now c = (now, now)"
    by (simp add: calculateSoftExpiry_def calculateSoftExpiry_branch_def Let_def sub)
  qed
  have hard: "calculateSoftExpiry_branch now c = (SoftWindow, now, now)"
    if a: "10 * Minute \<le> time_Sub (ValidBefore c) (ValidAfter c)
      \<and> now = time_Add (ValidAfter c)
            (scaleDuration f64_0_9 (time_Sub (ValidBefore c) (ValidAfter c)))"
  proof -
  define L where "L = time_Sub (ValidBefore c) (ValidAfter c)"
  have L0: "0 \<le> L" using a by (simp add: L_def Minute_def Second_def)
  have s: "scaleDuration f64_0_6 L \<le> scaleDuration f64_0_9 L"
    using L0 by (rule scale_0_6_le_0_9)
  show "calculateSoftExpiry_branch now c = (SoftWindow, now, now)"
    using a s
    by (auto simp add: calculateSoftExpiry_branch_def Let_def L_def[symmetric] time_Add_def
        time_After_def)
  qed
  show ?thesis using exact short hard by blast
qed

theorem calculateSoftExpiry_strict_boundaries_witness:
  "calculateSoftExpiry_branch (9 * Minute)
      \<lparr>CertPEM = [], PrivateKeyPEM = [], ValidAfter = 0, ValidBefore = 10 * Minute,
       ModifyIndex = 1\<rparr> = (SoftWindow, 9 * Minute, 9 * Minute)
   \<and> calculateSoftExpiry_branch (9 * Minute + 1)
      \<lparr>CertPEM = [], PrivateKeyPEM = [], ValidAfter = 0, ValidBefore = 10 * Minute,
       ModifyIndex = 1\<rparr> = (HardRenew, 9 * Minute + 1, 9 * Minute + 1)
   \<and> calculateSoftExpiry_branch 5
      \<lparr>CertPEM = [], PrivateKeyPEM = [], ValidAfter = 0, ValidBefore = 10 * Minute - 1,
       ModifyIndex = 1\<rparr> = (TooShort, 5, 5)
   \<and> calculateSoftExpiry_branch (9720 * Second)
      \<lparr>CertPEM = [], PrivateKeyPEM = [], ValidAfter = 0, ValidBefore = 10800 * Second,
       ModifyIndex = 1\<rparr> = (SoftWindow, 9720 * Second, 9720 * Second)"
proof -
  let ?c10 = "\<lparr>CertPEM = [], PrivateKeyPEM = [], ValidAfter = 0, ValidBefore = 10 * Minute,
       ModifyIndex = 1\<rparr>"
  let ?c9 = "\<lparr>CertPEM = [], PrivateKeyPEM = [], ValidAfter = 0, ValidBefore = 10 * Minute - 1,
       ModifyIndex = 1\<rparr>"
  let ?c3h = "\<lparr>CertPEM = [], PrivateKeyPEM = [], ValidAfter = 0, ValidBefore = 10800 * Second,
       ModifyIndex = 1\<rparr>"
  have s9: "scaleDuration f64_0_9 10800000000000 = 9720000000000"
    using scale_0_9_exact[of 1080000000000] by simp
  have sub: "time_Sub 10800000000000 0 = 10800000000000"
    by (simp add: time_Sub_id minDuration_def maxDuration_def)
  show ?thesis
    using calculateSoftExpiry_strict_boundaries[of ?c10 "9 * Minute"]
      calculateSoftExpiry_strict_boundaries[of ?c10 "9 * Minute + 1"]
      calculateSoftExpiry_strict_boundaries[of ?c9 5]
      calculateSoftExpiry_strict_boundaries[of ?c3h "9720 * Second"]
    by (simp add: s9 sub time_Add_def Minute_def Second_def)
qed

section \<open>activeRootHasKey\<close>

lemma activeRootHasKey_loop_none:
  "\<forall>ca \<in> set cas. \<not> Active ca \<Longrightarrow> activeRootHasKey_loop cas k = False"
  by (induction cas) simp_all

lemma RandomStagger_range: "0 \<le> RandomStagger r intv \<and> RandomStagger r intv \<le> max 0 intv"
proof (cases "intv \<le> 0")
  case True
  then show ?thesis by (simp add: RandomStagger_def)
next
  case False
  then have p: "0 < intv + 1" by simp
  have "r mod (intv + 1) < intv + 1" using p by (rule pos_mod_bound)
  moreover have "0 \<le> r mod (intv + 1)" using p by (rule pos_mod_sign)
  ultimately show ?thesis using False by (simp add: RandomStagger_def)
qed

section \<open>The roots watcher\<close>

lemma sendOrDrop_eq: "sendOrDrop n = (if n = 0 then 1 else n)"
  by (simp add: sendOrDrop_def trySend_def)

text \<open>
  C8. On an update event without error that carries a roots snapshot, the watcher
  notifies only when no snapshot was seen before or the active root id differs from the
  one last seen; otherwise nothing changes. When it notifies, every channel of the
  subscriber set gets a non-blocking send: an empty channel then holds one value, a full
  one is left as it is (the send is dropped), no other channel is touched, and the
  snapshot is remembered. The step is a total function of the state: no send can block it.
\<close>

theorem rootWatcher_edge_triggered_fanout:
  assumes "Err e = None" and "Result e = RootsResult roots"
  shows "rootWatcher_event subscribers (oldRoots, buf) e =
      (if \<exists>old. oldRoots = Some old \<and> ActiveRootID old = ActiveRootID roots
       then (oldRoots, buf)
       else (Some roots, \<lambda>ch. if ch \<in> subscribers \<and> buf ch = 0 then 1 else buf ch))"
  using assms
  by (cases oldRoots) (auto simp: rootWatcher_event_def fanOut_def sendOrDrop_eq)

theorem rootWatcher_edge_triggered_fanout_witness:
  "Err \<lparr>Result = RootsResult \<lparr>ActiveRootID = ''r2'', TrustDomain = ''td'', Roots = []\<rparr>,
        Err = None\<rparr> = None
   \<and> fst (rootWatcher_event {1, 2}
        (Some \<lparr>ActiveRootID = ''r1'', TrustDomain = ''td'', Roots = []\<rparr>,
         \<lambda>ch. if ch = 1 then 1 else 0)
        \<lparr>Result = RootsResult \<lparr>ActiveRootID = ''r2'', TrustDomain = ''td'', Roots = []\<rparr>,
        Err = None\<rparr>) = Some \<lparr>ActiveRootID = ''r2'', TrustDomain = ''td'', Roots = []\<rparr>
   \<and> map (snd (rootWatcher_event {1, 2}
        (Some \<lparr>ActiveRootID = ''r1'', TrustDomain = ''td'', Roots = []\<rparr>,
         \<lambda>ch. if ch = 1 then 1 else 0)
        \<lparr>Result = RootsResult \<lparr>ActiveRootID = ''r2'', TrustDomain = ''td'', Roots = []\<rparr>,
        Err = None\<rparr>)) [1, 2, 3] = [1, 1, 0]
   \<and> map (snd (rootWatcher_event {1, 2}
        (Some \<lparr>ActiveRootID = ''r2'', TrustDomain = ''td'', Roots = []\<rparr>,
         \<lambda>ch. if ch = 1 then 1 else 0)
        \<lparr>Result = RootsResult \<lparr>ActiveRootID = ''r2'', TrustDomain = ''td'', Roots = []\<rparr>,
        Err = None\<rparr>)) [1, 2, 3] = [1, 0, 0]"
  using rootWatcher_edge_triggered_fanout
    [of "\<lparr>Result = RootsResult \<lparr>ActiveRootID = ''r2'', TrustDomain = ''td'', Roots = []\<rparr>,
        Err = None\<rparr>" "\<lparr>ActiveRootID = ''r2'', TrustDomain = ''td'', Roots = []\<rparr>" "{1, 2}"
       "Some \<lparr>ActiveRootID = ''r1'', TrustDomain = ''td'', Roots = []\<rparr>"
       "\<lambda>ch. if ch = 1 then 1 else 0"]
    rootWatcher_edge_triggered_fanout
    [of "\<lparr>Result = RootsResult \<lparr>ActiveRootID = ''r2'', TrustDomain = ''td'', Roots = []\<rparr>,
        Err = None\<rparr>" "\<lparr>ActiveRootID = ''r2'', TrustDomain = ''td'', Roots = []\<rparr>" "{1, 2}"
       "Some \<lparr>ActiveRootID = ''r2'', TrustDomain = ''td'', Roots = []\<rparr>"
       "\<lambda>ch. if ch = 1 then 1 else 0"]
  by simp

section \<open>The watcher's lifecycle\<close>

lemma entry_step_no_restart:
  assumes "rootWatchCancel c \<noteq> None"
  shows "rootWatchCancel (entry_step c op) \<noteq> None \<and> running (entry_step c op) \<subseteq> running c"
  using assms
  by (cases op)
    (auto simp: fetchStart_def fetchDone_def ensureRootWatcher_def cancel_def notifyFailed_def
      Let_def split: option.splits)

lemma entry_run_no_restart:
  "rootWatchCancel c \<noteq> None \<Longrightarrow> running (entry_run c ops) \<subseteq> running c"
proof (induction ops arbitrary: c)
  case Nil
  then show ?case by (simp add: entry_run_def)
next
  case (Cons op ops)
  have "running (entry_run (entry_step c op) ops) \<subseteq> running (entry_step c op)"
    using Cons.IH[of "entry_step c op"] entry_step_no_restart[OF Cons.prems] by simp
  then show ?case using entry_step_no_restart[OF Cons.prems, of op] by (auto simp: entry_run_def)
qed

text \<open>
  C1, evaluated on the code. \<open>fetchDone\<close> calls \<open>rootWatchCancel\<close> but leaves the
  field set, so \<open>ensureRootWatcher\<close> never starts a second watcher: after one
  \<open>Fetch\<close> has entered and left, a second \<open>Fetch\<close> is registered in the subscriber
  set while no watcher task runs, also when the first watcher had left on a subscribe
  failure.
\<close>

theorem watcher_not_restarted:
  "rootWatchSubscribers (entry_run newEntry [FetchEnters 1, FetchExits 1, FetchEnters 2]) = {2}
   \<and> running (entry_run newEntry [FetchEnters 1]) = {0}
   \<and> running (entry_run newEntry [FetchEnters 1, FetchExits 1]) = {}
   \<and> running (entry_run newEntry [FetchEnters 1, FetchExits 1, FetchEnters 2]) = {}
   \<and> rootWatchSubscribers
        (entry_run newEntry [FetchEnters 1, WatcherSubscribeFails 0, FetchExits 1, FetchEnters 2])
      = {2}
   \<and> running
        (entry_run newEntry [FetchEnters 1, WatcherSubscribeFails 0, FetchExits 1, FetchEnters 2])
      = {}"
  by (simp add: entry_run_def newEntry_def fetchStart_def fetchDone_def ensureRootWatcher_def
      cancel_def notifyFailed_def Let_def)

section \<open>Generation and the forced expiry\<close>

lemma generateNewLeaf_error_state:
  assumes "leaf_err (generateNewLeaf env req (Some st)) = Some e"
  shows "leaf_state (generateNewLeaf env req (Some st)) = Some st
       \<or> (\<exists>roots pk pkPEM csr signed.
             rootsFromCache (cacheGet env) = Inr roots
           \<and> GeneratePrivateKey env = Inr (pk, pkPEM)
           \<and> CreateCSR env (TrustDomain roots, Datacenter req, ''default'', Service req) pk = Inr csr
           \<and> Sign env (Token req, Datacenter req, csr) = Inr signed
           \<and> ParseCert env (CertPEM signed) = Inl e
           \<and> leaf_state (generateNewLeaf env req (Some st)) = Some (st\<lparr>forceExpireAfter := 0\<rparr>))"
  using assms
  by (auto simp: generateNewLeaf_def leafFails_def Let_def split: sum.splits if_splits prod.splits)

section \<open>The select and the wait loop\<close>


lemma select_wait_in:
  "select_wait pick t timeout untilExpiry ns \<in>
     {TimeoutFired (timerReady t timeout), ExpiryFired (timerReady t untilExpiry)}
     \<union> (case ns of [] \<Rightarrow> {} | n # rest \<Rightarrow> {UpdateReceived (max t (arrival n)) n rest})"
proof -
  define tTimeout where "tTimeout = timerReady t timeout"
  define tExpiry where "tExpiry = timerReady t untilExpiry"
  define first where "first = (case ns of [] \<Rightarrow> min tTimeout tExpiry
     | n # rest \<Rightarrow> min (min tTimeout tExpiry) (max t (arrival n)))"
  define ready where "ready = (if tTimeout = first then [TimeoutFired first] else []) @
                  (if tExpiry = first then [ExpiryFired first] else []) @
                  (case ns of [] \<Rightarrow> []
                   | n # rest \<Rightarrow>
                       if max t (arrival n) = first then [UpdateReceived first n rest] else [])"
  have sel: "select_wait pick t timeout untilExpiry ns = ready ! (pick mod length ready)"
    unfolding select_wait_def Let_def ready_def first_def tTimeout_def tExpiry_def ..
  have ne: "ready \<noteq> []"
    by (cases ns) (auto simp: ready_def first_def min_def)
  then have "ready ! (pick mod length ready) \<in> set ready" by simp
  moreover have "set ready \<subseteq> {TimeoutFired tTimeout, ExpiryFired tExpiry}
     \<union> (case ns of [] \<Rightarrow> {} | n # rest \<Rightarrow> {UpdateReceived (max t (arrival n)) n rest})"
    by (cases ns) (auto simp: ready_def)
  ultimately show ?thesis unfolding sel tTimeout_def tExpiry_def by blast
qed

lemma select_wait_TimeoutFired:
  "select_wait pick t timeout untilExpiry ns = TimeoutFired t' \<Longrightarrow> t' = timerReady t timeout"
  using select_wait_in[of pick t timeout untilExpiry ns] by (cases ns) auto


lemma select_wait_UpdateReceived:
  "select_wait pick t timeout untilExpiry ns = UpdateReceived t' n rest
     \<Longrightarrow> ns = n # rest \<and> t' = max t (arrival n)"
  using select_wait_in[of pick t timeout untilExpiry ns] by (cases ns) auto

lemma onRootUpdate_cases:
  "(\<exists>e. rootsFromCache (rootsGet n) = Inl e \<and> onRootUpdate c now expiresAt state n = ReadFailed e)
   \<or> (\<exists>roots. rootsFromCache (rootsGet n) = Inr roots
        \<and> activeRootHasKey roots (authorityKeyID state)
        \<and> onRootUpdate c now expiresAt state n = KeepWaiting state expiresAt)
   \<or> (\<exists>roots. rootsFromCache (rootsGet n) = Inr roots
        \<and> \<not> activeRootHasKey roots (authorityKeyID state)
        \<and> onRootUpdate c now expiresAt state n =
            KeepWaiting (state\<lparr>forceExpireAfter := now + RandomStagger (draw n) (effectiveJitter c)\<rparr>)
              (min expiresAt (now + RandomStagger (draw n) (effectiveJitter c))))"
  by (cases "rootsFromCache (rootsGet n)")
    (auto simp: onRootUpdate_def Let_def time_Add_def time_Before_def min_def)



lemma effectiveJitter_range:
  "0 < effectiveJitter c"
  by (simp add: effectiveJitter_def caChangeInitialJitter_def Second_def)


lemma jitter_delay_range:
  "0 \<le> RandomStagger r (effectiveJitter c) \<and> RandomStagger r (effectiveJitter c) \<le> effectiveJitter c"
  using RandomStagger_range[of r "effectiveJitter c"] effectiveJitter_range[of c] by simp





section \<open>A change of signer\<close>



section \<open>Fetch with a cached certificate\<close>





section \<open>A failed roots read\<close>

lemma waitLoop_read_failed:
  assumes woken: "select_wait (pks i) t timeout (time_Sub expiresAt t) ns = UpdateReceived now n rest"
    and failed: "rootsFromCache (rootsGet n) = Inl e"
  shows "waitLoop c timeout pks i t expiresAt state ns = RootsFailed now e state"
proof -
  have "onRootUpdate c now expiresAt state n = ReadFailed e"
    using failed by (simp add: onRootUpdate_def)
  then show ?thesis using woken by (subst waitLoop.simps) simp
qed

section \<open>The caller's timeout\<close>

lemma waitLoop_TimedOut_after:
  "waitLoop c timeout pks i t expiresAt state ns = TimedOut t' st' \<Longrightarrow> 0 \<le> timeout
     \<Longrightarrow> t + timeout \<le> t'"
proof (induction c timeout pks i t expiresAt state ns rule: waitLoop.induct)
  case (1 c timeout pks i t expiresAt state ns)
  let ?sel = "select_wait (pks i) t timeout (time_Sub expiresAt t) ns"
  show ?case
  proof (cases ?sel)
    case (TimeoutFired u)
    then have "u = t'" using "1.prems"(1) by (subst (asm) waitLoop.simps) simp
    then show ?thesis
      using select_wait_TimeoutFired[OF TimeoutFired] "1.prems"(2)
      by (auto simp: timerReady_def split: if_splits)
  next
    case (ExpiryFired u)
    then show ?thesis using "1.prems"(1) by (subst (asm) waitLoop.simps) simp
  next
    case (UpdateReceived u n rest)
    have u: "t \<le> u" using select_wait_UpdateReceived[OF UpdateReceived] by simp
    show ?thesis
    proof (cases "onRootUpdate c u expiresAt state n")
      case (ReadFailed e)
      then show ?thesis using "1.prems"(1) UpdateReceived by (subst (asm) waitLoop.simps) simp
    next
      case (KeepWaiting state1 expiresAt1)
      have "waitLoop c timeout pks (Suc i) u expiresAt1 state1 rest = TimedOut t' st'"
        using "1.prems"(1) UpdateReceived KeepWaiting by (subst (asm) waitLoop.simps) simp
      then have "u + timeout \<le> t'"
        using "1.IH"[OF UpdateReceived KeepWaiting] "1.prems"(2) by simp
      then show ?thesis using u by simp
    qed
  qed
qed

text \<open>
  C2, evaluated on the code. \<^verbatim>\<open>time.After(opts.Timeout)\<close> is called inside the loop, so
  every iteration arms a new timer of the full \<open>Timeout\<close>: when a notification wakes
  the loop at instant \<open>now\<close> and the loop goes on waiting, a return by the caller's
  timeout comes no earlier than \<open>now + Timeout\<close>, whenever the call was entered. With
  a timeout of 20 s, a call entered at 10:30:00 and woken at 10:30:05 by a notification
  that leaves the signer unchanged returns at 10:30:25.
\<close>

theorem caller_timeout_rearmed:
  assumes woken: "select_wait (pks i) t timeout (time_Sub expiresAt t) ns = UpdateReceived now n rest"
    and goes_on: "onRootUpdate c now expiresAt state n = KeepWaiting state' expiresAt'"
    and exits: "waitLoop c timeout pks i t expiresAt state ns = TimedOut t' st'"
    and pos: "0 \<le> timeout"
  shows "now + timeout \<le> t'"
proof -
  have "waitLoop c timeout pks (Suc i) now expiresAt' state' rest = TimedOut t' st'"
    using exits woken goes_on by (subst (asm) waitLoop.simps) simp
  then show ?thesis using pos by (rule waitLoop_TimedOut_after)
qed

theorem caller_timeout_rearmed_witness:
  "entered (scenario_env [\<lparr>arrival = 37805 * Second, rootsGet = GetRoots roots_R1, draw = 0\<rparr>])
     = 37800 * Second
   \<and> Timeout (scenario_opts (20 * Second)) = 20 * Second
   \<and> ret_path (Fetch (scenario_env
          [\<lparr>arrival = 37805 * Second, rootsGet = GetRoots roots_R1, draw = 0\<rparr>])
        newEntry (scenario_opts (20 * Second)) scenario_req) = TimedOutWaiting
   \<and> ret_err (Fetch (scenario_env
          [\<lparr>arrival = 37805 * Second, rootsGet = GetRoots roots_R1, draw = 0\<rparr>])
        newEntry (scenario_opts (20 * Second)) scenario_req) = None
   \<and> ret_at (Fetch (scenario_env
          [\<lparr>arrival = 37805 * Second, rootsGet = GetRoots roots_R1, draw = 0\<rparr>])
        newEntry (scenario_opts (20 * Second)) scenario_req) = 37825 * Second
   \<and> 37805 * Second + 20 * Second \<le> (37825 * Second :: int)"
proof -
  let ?n = "\<lparr>arrival = 37805 * Second, rootsGet = GetRoots roots_R1, draw = 0\<rparr>"
  let ?c = "fetchStart 1 newEntry"
  have a: "select_wait 0 (37800 * Second) (20 * Second)
             (time_Sub (42480 * Second) (37800 * Second)) [?n]
           = UpdateReceived (37805 * Second) ?n []"
    by code_simp
  have b: "onRootUpdate ?c (37805 * Second) (42480 * Second) scenario_state ?n
           = KeepWaiting scenario_state (42480 * Second)"
    by code_simp
  have c: "waitLoop ?c (20 * Second) (\<lambda>i. 0) 0 (37800 * Second) (42480 * Second)
             scenario_state [?n] = TimedOut (37825 * Second) scenario_state"
    by code_simp
  have d: "(0::int) \<le> 20 * Second" by (simp add: Second_def)
  have e: "entered (scenario_env [?n]) = 37800 * Second
   \<and> Timeout (scenario_opts (20 * Second)) = 20 * Second
   \<and> ret_path (Fetch (scenario_env [?n]) newEntry (scenario_opts (20 * Second)) scenario_req)
       = TimedOutWaiting
   \<and> ret_err (Fetch (scenario_env [?n]) newEntry (scenario_opts (20 * Second)) scenario_req)
       = None
   \<and> ret_at (Fetch (scenario_env [?n]) newEntry (scenario_opts (20 * Second)) scenario_req)
       = 37825 * Second"
    by code_simp
  show ?thesis
    using caller_timeout_rearmed[where pks = "\<lambda>i. 0" and i = 0, OF a b c d] e by simp
qed

section \<open>A snapshot without an active root\<close>

text \<open>
  C10. For every roots snapshot in which no root is marked active, \<open>activeRootHasKey\<close>
  is false whatever key id is asked for; a \<open>Fetch\<close> woken by a notification that
  reads such a snapshot therefore takes it for a change of signer: it sets
  \<open>forceExpireAfter\<close> to the present instant plus a delay within the jitter, lowers
  the target expiry to that instant if it is earlier, and goes on waiting with them.
\<close>


theorem no_active_root_forces_expiry:
  assumes none: "\<forall>ca \<in> set (Roots roots). \<not> Active ca"
    and read: "rootsFromCache (rootsGet n) = Inr roots"
  shows "activeRootHasKey roots keyID = False
    \<and> 0 \<le> RandomStagger (draw n) (effectiveJitter c)
    \<and> RandomStagger (draw n) (effectiveJitter c) \<le> effectiveJitter c
    \<and> onRootUpdate c now expiresAt state n =
        KeepWaiting
          (state\<lparr>forceExpireAfter := now + RandomStagger (draw n) (effectiveJitter c)\<rparr>)
          (min expiresAt (now + RandomStagger (draw n) (effectiveJitter c)))
    \<and> (select_wait (pks i) t timeout (time_Sub expiresAt t) ns = UpdateReceived now n rest
        \<longrightarrow> waitLoop c timeout pks i t expiresAt state ns =
             waitLoop c timeout pks (Suc i) now
               (min expiresAt (now + RandomStagger (draw n) (effectiveJitter c)))
               (state\<lparr>forceExpireAfter := now + RandomStagger (draw n) (effectiveJitter c)\<rparr>)
               rest)"
proof -
  have k: "activeRootHasKey roots k = False" for k
    using none by (simp add: activeRootHasKey_def activeRootHasKey_loop_none)
  have upd: "onRootUpdate c now expiresAt state n =
        KeepWaiting
          (state\<lparr>forceExpireAfter := now + RandomStagger (draw n) (effectiveJitter c)\<rparr>)
          (min expiresAt (now + RandomStagger (draw n) (effectiveJitter c)))"
    using onRootUpdate_cases[of n c now expiresAt state] read k[of "authorityKeyID state"]
    by auto
  have loop: "waitLoop c timeout pks i t expiresAt state ns =
             waitLoop c timeout pks (Suc i) now
               (min expiresAt (now + RandomStagger (draw n) (effectiveJitter c)))
               (state\<lparr>forceExpireAfter := now + RandomStagger (draw n) (effectiveJitter c)\<rparr>)
               rest"
    if "select_wait (pks i) t timeout (time_Sub expiresAt t) ns = UpdateReceived now n rest"
    using that upd by (subst waitLoop.simps) simp
  show ?thesis
    using k[of keyID] jitter_delay_range[of "draw n" c] upd loop by simp
qed

theorem no_active_root_forces_expiry_witness:
  "activeRootHasKey
      \<lparr>ActiveRootID = ''R9'', TrustDomain = ''cluster.consul'',
       Roots = [\<lparr>SigningKeyID = ''k1'', Active = False\<rparr>]\<rparr> ''k1'' = False
   \<and> onRootUpdate newEntry (37805 * Second) (42480 * Second) scenario_state
        \<lparr>arrival = 37805 * Second,
         rootsGet = GetRoots \<lparr>ActiveRootID = ''R9'', TrustDomain = ''cluster.consul'',
                      Roots = [\<lparr>SigningKeyID = ''k1'', Active = False\<rparr>]\<rparr>,
         draw = 4000000000\<rparr>
      = KeepWaiting (scenario_state\<lparr>forceExpireAfter := 37809 * Second\<rparr>) (37809 * Second)
   \<and> waitLoop newEntry (60 * Second) (\<lambda>i. 0) 0 (37800 * Second) (42480 * Second) scenario_state
        [\<lparr>arrival = 37805 * Second,
          rootsGet = GetRoots \<lparr>ActiveRootID = ''R9'', TrustDomain = ''cluster.consul'',
                      Roots = [\<lparr>SigningKeyID = ''k1'', Active = False\<rparr>]\<rparr>,
          draw = 4000000000\<rparr>]
      = Expired (37809 * Second) (scenario_state\<lparr>forceExpireAfter := 37809 * Second\<rparr>)"
proof -
  let ?roots = "\<lparr>ActiveRootID = ''R9'', TrustDomain = ''cluster.consul'',
       Roots = [\<lparr>SigningKeyID = ''k1'', Active = False\<rparr>]\<rparr>"
  let ?n = "\<lparr>arrival = 37805 * Second, rootsGet = GetRoots ?roots, draw = 4000000000\<rparr>"
  have a: "\<forall>ca \<in> set (Roots ?roots). \<not> Active ca" by simp
  have b: "rootsFromCache (rootsGet ?n) = Inr ?roots" by (simp add: rootsFromCache_def)
  have c: "activeRootHasKey ?roots ''k1'' = False
   \<and> onRootUpdate newEntry (37805 * Second) (42480 * Second) scenario_state ?n
      = KeepWaiting (scenario_state\<lparr>forceExpireAfter := 37809 * Second\<rparr>) (37809 * Second)
   \<and> waitLoop newEntry (60 * Second) (\<lambda>i. 0) 0 (37800 * Second) (42480 * Second) scenario_state
        [?n]
      = Expired (37809 * Second) (scenario_state\<lparr>forceExpireAfter := 37809 * Second\<rparr>)"
    by code_simp
  show ?thesis
    using no_active_root_forces_expiry[OF a b, of "''k1''" newEntry] c by simp
qed

section \<open>Generation that fails after signing\<close>

text \<open>
  C3, evaluated on the code. \<open>generateNewLeaf\<close> assigns the zero time to
  \<open>forceExpireAfter\<close> through the state pointer after the signing RPC has answered and
  before the certificate is parsed. When parsing then fails, the call returns the error
  and an empty result, and the state object has lost its forced expiry. On every earlier
  failure the state is untouched (\<open>generateNewLeaf_error_state\<close>).
\<close>

theorem parse_failure_clears_forced_expiry:
  assumes "rootsFromCache (cacheGet env) = Inr roots"
    and "TrustDomain roots \<noteq> []"
    and "GeneratePrivateKey env = Inr (pk, pkPEM)"
    and "CreateCSR env (TrustDomain roots, Datacenter req, ''default'', Service req) pk = Inr csr"
    and "Sign env (Token req, Datacenter req, csr) = Inr signed"
    and "ParseCert env (CertPEM signed) = Inl e"
  shows "generateNewLeaf env req (Some st) =
     \<lparr>leaf_result = zeroResult, leaf_err = Some e,
      leaf_state = Some (st\<lparr>forceExpireAfter := 0\<rparr>)\<rparr>"
  using assms by (simp add: generateNewLeaf_def leafFails_def Let_def)

theorem parse_failure_clears_forced_expiry_witness:
  "generateNewLeaf (scenario_leaf\<lparr>ParseCert := (\<lambda>pem. Inl (Upstream ''bad certificate''))\<rparr>)
     \<lparr>Token = ''token'', Datacenter = ''dc1'', Service = ''web'', MinQueryIndex = 7\<rparr>
     (Some \<lparr>authorityKeyID = ''k1'', forceExpireAfter = 37809 * Second\<rparr>)
   = \<lparr>leaf_result = zeroResult, leaf_err = Some (Upstream ''bad certificate''),
      leaf_state = Some \<lparr>authorityKeyID = ''k1'', forceExpireAfter = 0\<rparr>\<rparr>
   \<and> forceExpireAfter \<lparr>authorityKeyID = ''k1'', forceExpireAfter = 37809 * Second\<rparr> \<noteq> 0"
  using parse_failure_clears_forced_expiry
    [of "scenario_leaf\<lparr>ParseCert := (\<lambda>pem. Inl (Upstream ''bad certificate''))\<rparr>" roots_R2
      "''new-key''" "''new-key-pem''"
      "\<lparr>Token = ''token'', Datacenter = ''dc1'', Service = ''web'', MinQueryIndex = 7\<rparr>"
      "''csr''"
      "\<lparr>CertPEM = ''new-cert'', PrivateKeyPEM = [],
        ValidAfter = 37800 * Second, ValidBefore = 48600 * Second, ModifyIndex = 42\<rparr>"
      "Upstream ''bad certificate''"
      "\<lparr>authorityKeyID = ''k1'', forceExpireAfter = 37809 * Second\<rparr>"]
  by (simp add: scenario_leaf_def rootsFromCache_def roots_R2_def Second_def)

section \<open>The result of a failed roots read\<close>




end
